theory Spec2Isabelle
  imports Main
begin

section \<open>Data model of \<open>helpers.ts\<close>\<close>

text \<open>
  Errors are values.  \<open>hre.artifacts.readArtifact\<close> belongs to the host framework; the
  only failure of it that the resolver's specification names is "no artifact for this
  name", which is \<open>NotFound\<close> carrying the requested name.  Every error the plugin itself
  throws is a \<open>ZkSync2JsPluginError\<close> carrying its message.
\<close>

datatype error =
    NotFound string
  | ZkSync2JsPluginError string

text \<open>
  \<open>ZkSyncArtifact\<close>.  The field \<open>_format\<close> of the source is \<open>format_tag\<close> here (an
  Isabelle name cannot start with an underscore).  \<open>factoryDeps\<close> is a JavaScript object
  from dependency hash to fully-qualified contract name: it is kept as the list of its
  own properties in the order in which they were created, with pairwise different keys.
\<close>

record ZkSyncArtifact =
  format_tag :: string
  contractName :: string
  sourceName :: string
  abi :: "string list"
  bytecode :: string
  factoryDeps :: "(string \<times> string) list"

text \<open>
  The two format versions are imported from \<open>./constants\<close>, which is not among the
  sources: they are a parameter of the model.
\<close>

record constants =
  ZKSOLC_ARTIFACT_FORMAT_VERSION :: string
  ZKVYPER_ARTIFACT_FORMAT_VERSION :: string

datatype Wallet = Wallet (privateKey: string)

text \<open>
  What the functions below read from the \<open>HardhatRuntimeEnvironment\<close>: the artifact
  store behind \<open>hre.artifacts.readArtifact\<close> (a finite table from the names it
  accepts to artifacts) and the wallets that \<open>getWalletsFromAccount\<close> (imported from
  \<open>./utils\<close>, not among the sources) derives from \<open>hre.network.config.accounts\<close>;
  the latter are a parameter of the model.
\<close>

record HardhatRuntimeEnvironment =
  artifacts :: "(string \<times> ZkSyncArtifact) list"
  accountWallets :: "Wallet list"

text \<open>
  Modelled from the spec: \<open>hre.artifacts.readArtifact\<close>, the host framework's reader of
  the build output, is not among the sources.  It returns the artifact stored for the
  name, and fails with \<open>NotFound\<close> when no artifact exists for it.
\<close>

definition readArtifact :: "HardhatRuntimeEnvironment \<Rightarrow> string \<Rightarrow> error + ZkSyncArtifact" where
  "readArtifact hre name =
     (case map_of (artifacts hre) name of
        None \<Rightarrow> Inl (NotFound name)
      | Some artifact \<Rightarrow> Inr artifact)"

section \<open>\<open>loadArtifact\<close>\<close>

definition loadArtifact ::
    "constants \<Rightarrow> HardhatRuntimeEnvironment \<Rightarrow> string \<Rightarrow> error + ZkSyncArtifact" where
  "loadArtifact K hre contractNameOrFullyQualifiedName =
     (case readArtifact hre contractNameOrFullyQualifiedName of
        Inl e \<Rightarrow> Inl e
      | Inr artifact \<Rightarrow>
          if format_tag artifact \<noteq> ZKSOLC_ARTIFACT_FORMAT_VERSION K
             \<and> format_tag artifact \<noteq> ZKVYPER_ARTIFACT_FORMAT_VERSION K
          then Inl (ZkSync2JsPluginError
                 (''Artifact '' @ contractNameOrFullyQualifiedName
                    @ '' was not compiled by zksolc or zkvyper''))
          else Inr artifact)"

section \<open>Enumeration order of \<open>for (const k in obj)\<close>\<close>

text \<open>
  The loop of the resolver is \<open>for (const dependencyHash in artifact.factoryDeps)\<close>.
  A \<open>for ... in\<close> loop over an ordinary object follows the order of its own property
  keys: first the keys that are array indices (a canonical decimal numeral, that is
  \<open>0\<close> or digits without a leading zero, of value below \<open>2^32 - 1 = 4294967295\<close>) in
  ascending numeric order, then all other string keys in the order of their creation.
  \<open>forIn\<close> lists the entries of an object in this order.
\<close>

definition isDigit :: "char \<Rightarrow> bool" where
  "isDigit c = (48 \<le> (of_char c :: int) \<and> (of_char c :: int) \<le> 57)"

definition decimal :: "string \<Rightarrow> int" where
  "decimal s = foldl (\<lambda>n c. 10 * n + ((of_char c :: int) - 48)) 0 s"

definition isArrayIndex :: "string \<Rightarrow> bool" where
  "isArrayIndex s =
     (s \<noteq> [] \<and> list_all isDigit s \<and> (hd s = CHR ''0'' \<longrightarrow> s = ''0'')
      \<and> decimal s < 4294967295)"

definition forIn :: "(string \<times> 'v) list \<Rightarrow> (string \<times> 'v) list" where
  "forIn obj =
     sort_key (\<lambda>p. decimal (fst p)) (filter (\<lambda>p. isArrayIndex (fst p)) obj)
       @ filter (\<lambda>p. \<not> isArrayIndex (fst p)) obj"

section \<open>\<open>extractFactoryDeps\<close>\<close>

text \<open>
  The state threaded through the recursion: the \<open>visited\<close> set of the source, shared
  by all recursive calls, and \<open>loads\<close>, the log of the calls of \<open>loadArtifact\<close> in the
  order in which they are made (the effect of the function on the artifact loader).
\<close>

record resolver_state =
  visited :: "string set"
  loads :: "string list"

lemma loadArtifact_Inr_dom:
  "loadArtifact K hre c = Inr a \<Longrightarrow> c \<in> fst ` set (artifacts hre)"
  by (auto simp: loadArtifact_def readArtifact_def dest: map_of_SomeD
           split: option.splits if_splits intro: rev_image_eqI)

text \<open>
  \<open>extractFactoryDepsRecursive\<close> and the body of its \<open>for ... in\<close> loop.  \<open>forLoop\<close>
  takes the entries still to visit and the local array \<open>factoryDeps\<close> (here \<open>deps\<close>)
  built so far.  An exception of \<open>loadArtifact\<close> or of the recursive call leaves the
  loop and the function at once.
\<close>

function extractFactoryDepsRecursive ::
    "constants \<Rightarrow> HardhatRuntimeEnvironment \<Rightarrow> ZkSyncArtifact \<Rightarrow> resolver_state
       \<Rightarrow> (error + string list) \<times> resolver_state"
  and forLoop ::
    "constants \<Rightarrow> HardhatRuntimeEnvironment \<Rightarrow> (string \<times> string) list \<Rightarrow> string list
       \<Rightarrow> resolver_state \<Rightarrow> (error + string list) \<times> resolver_state"
where
  "extractFactoryDepsRecursive K hre artifact s =
     forLoop K hre (forIn (factoryDeps artifact)) [] s"
| "forLoop K hre [] deps s = (Inr deps, s)"
| "forLoop K hre ((dependencyHash, dependencyContract) # rest) deps s =
     (if dependencyContract \<notin> visited s then
        (case loadArtifact K hre dependencyContract of
           Inl e \<Rightarrow> (Inl e, s\<lparr>loads := loads s @ [dependencyContract]\<rparr>)
         | Inr dependencyArtifact \<Rightarrow>
             (case extractFactoryDepsRecursive K hre dependencyArtifact
                     (s\<lparr>loads := loads s @ [dependencyContract],
                        visited := insert dependencyContract (visited s)\<rparr>) of
                (Inl e, s') \<Rightarrow> (Inl e, s')
              | (Inr transitiveDeps, s') \<Rightarrow>
                  forLoop K hre rest (deps @ [bytecode dependencyArtifact] @ transitiveDeps) s'))
      else forLoop K hre rest deps s)"
  by pat_completeness auto

text \<open>
  The recursion is nested: the loop continues with the visited set that the recursive
  call returns.  Termination needs that a call never shrinks the visited set.
\<close>

lemma visited_mono_dom:
  "extractFactoryDepsRecursive_forLoop_dom (Inl (K, hre, artifact, s)) \<Longrightarrow>
      visited s \<subseteq> visited (snd (extractFactoryDepsRecursive K hre artifact s))"
  "extractFactoryDepsRecursive_forLoop_dom (Inr (K, hre, es, deps, s)) \<Longrightarrow>
      visited s \<subseteq> visited (snd (forLoop K hre es deps s))"
proof (induct K hre artifact s and K hre es deps s
       rule: extractFactoryDepsRecursive_forLoop.pinduct)
  case (1 K hre artifact s)
  then show ?case by (simp add: extractFactoryDepsRecursive.psimps)
next
  case (2 K hre deps s)
  then show ?case by (simp add: forLoop.psimps)
next
  case (3 K hre dependencyHash dependencyContract rest deps s)
  show ?case
  proof (cases "dependencyContract \<in> visited s")
    case True
    with 3 show ?thesis by (simp add: forLoop.psimps)
  next
    case nv: False
    show ?thesis
    proof (cases "loadArtifact K hre dependencyContract")
      case (Inl e)
      with nv 3(1) show ?thesis by (simp add: forLoop.psimps)
    next
      case (Inr a)
      let ?s1 = "s\<lparr>loads := loads s @ [dependencyContract],
                    visited := insert dependencyContract (visited s)\<rparr>"
      obtain r s' where rec: "extractFactoryDepsRecursive K hre a ?s1 = (r, s')"
        by (cases "extractFactoryDepsRecursive K hre a ?s1")
      from 3(2) [OF nv Inr] rec have sub1: "visited ?s1 \<subseteq> visited s'" by simp
      show ?thesis
      proof (cases r)
        case (Inl e)
        with nv Inr rec sub1 3(1) show ?thesis by (auto simp: forLoop.psimps)
      next
        case r: (Inr t)
        from 3(3) [OF nv Inr rec [symmetric] r]
        have "visited s' \<subseteq> visited (snd (forLoop K hre rest (deps @ [bytecode a] @ t) s'))" .
        with nv Inr rec r sub1 3(1) show ?thesis by (auto simp: forLoop.psimps)
      qed
    qed
  qed
qed

text \<open>
  Every call terminates: each chain of nested calls is finite.  A recursive call on a
  dependency's artifact is made with one more stored name visited, and the loop goes
  on with a shorter list of entries and no fewer names visited.
\<close>

lemma resolver_terminates: "All extractFactoryDepsRecursive_forLoop_dom"
proof (relation "measures
    [\<lambda>x. case x of Inl (K, hre, artifact, s) \<Rightarrow> card (fst ` set (artifacts hre) - visited s)
                 | Inr (K, hre, es, deps, s) \<Rightarrow> card (fst ` set (artifacts hre) - visited s),
     \<lambda>x. case x of Inl (K, hre, artifact, s) \<Rightarrow> Suc (length (forIn (factoryDeps artifact)))
                 | Inr (K, hre, es, deps, s) \<Rightarrow> length es]", goal_cases)
  case 1
  show ?case by simp
next
  case (2 K hre artifact s)
  show ?case by simp
next
  case (3 K hre dependencyHash dependencyContract rest deps s x2)
  from 3 have "dependencyContract \<in> fst ` set (artifacts hre) - visited s"
    by (auto dest: loadArtifact_Inr_dom)
  then have "card (fst ` set (artifacts hre) - insert dependencyContract (visited s))
               < card (fst ` set (artifacts hre) - visited s)"
    by (intro psubset_card_mono) auto
  then show ?case by simp
next
  case (4 K hre dependencyHash dependencyContract rest deps s x2 x y x2a)
  let ?s1 = "s\<lparr>loads := loads s @ [dependencyContract],
                visited := insert dependencyContract (visited s)\<rparr>"
  from 4 have dom: "extractFactoryDepsRecursive_forLoop_dom (Inl (K, hre, x2, ?s1))"
    by simp
  from 4 have "y = snd (extractFactoryDepsRecursive K hre x2 ?s1)"
    by (metis snd_conv)
  with visited_mono_dom(1) [OF dom] have "visited s \<subseteq> visited y" by auto
  then have "card (fst ` set (artifacts hre) - visited y)
               \<le> card (fst ` set (artifacts hre) - visited s)"
    by (intro card_mono) auto
  then show ?case by auto
next
  case (5 K hre dependencyHash dependencyContract rest deps s)
  show ?case by simp
qed

termination extractFactoryDepsRecursive
  by (rule resolver_terminates)

text \<open>The identity \<open>`${artifact.sourceName}:${artifact.contractName}`\<close>.\<close>

definition identity :: "ZkSyncArtifact \<Rightarrow> string" where
  "identity artifact = sourceName artifact @ '':'' @ contractName artifact"

text \<open>
  \<open>extractFactoryDeps_run\<close> is the call of \<open>extractFactoryDeps\<close> with its effect:
  the value returned (or the exception thrown) and the final state.
  \<open>extractFactoryDeps\<close> is what the caller gets.
\<close>

definition extractFactoryDeps_run ::
    "constants \<Rightarrow> HardhatRuntimeEnvironment \<Rightarrow> ZkSyncArtifact
       \<Rightarrow> (error + string list) \<times> resolver_state" where
  "extractFactoryDeps_run K hre artifact =
     extractFactoryDepsRecursive K hre artifact
       \<lparr>visited = insert (identity artifact) {}, loads = []\<rparr>"

definition extractFactoryDeps ::
    "constants \<Rightarrow> HardhatRuntimeEnvironment \<Rightarrow> ZkSyncArtifact \<Rightarrow> error + string list" where
  "extractFactoryDeps K hre artifact = fst (extractFactoryDeps_run K hre artifact)"

definition loaded :: "constants \<Rightarrow> HardhatRuntimeEnvironment \<Rightarrow> ZkSyncArtifact \<Rightarrow> string list" where
  "loaded K hre artifact = loads (snd (extractFactoryDeps_run K hre artifact))"

section \<open>Pre-order depth-first traversal, stated on its own\<close>

text \<open>
  The textbook traversal with an explicit stack of pending identities and a set of
  identities seen: the top of the stack is skipped when it was seen before, and is
  otherwise marked, loaded and emitted, with its own successors pushed in front of the
  rest.  The sequence it emits is the order of first discovery.  A failing load
  ends the traversal with the loader's error.  \<open>succs\<close> gives the successors of an
  artifact in the order in which they are followed.
\<close>

function preorder_dfs ::
    "(ZkSyncArtifact \<Rightarrow> string list) \<Rightarrow> constants \<Rightarrow> HardhatRuntimeEnvironment
       \<Rightarrow> string list \<Rightarrow> string set \<Rightarrow> error + string list" where
  "preorder_dfs succs K hre [] seen = Inr []"
| "preorder_dfs succs K hre (c # stack) seen =
     (if c \<in> seen then preorder_dfs succs K hre stack seen
      else (case loadArtifact K hre c of
              Inl e \<Rightarrow> Inl e
            | Inr a \<Rightarrow>
                (case preorder_dfs succs K hre (succs a @ stack) (insert c seen) of
                   Inl e \<Rightarrow> Inl e
                 | Inr out \<Rightarrow> Inr (bytecode a # out))))"
  by pat_completeness auto
termination
proof (relation "measures
    [\<lambda>(succs, K, hre, stack, seen). card (fst ` set (artifacts hre) - seen),
     \<lambda>(succs, K, hre, stack, seen). length stack]", goal_cases)
  case 1
  show ?case by simp
next
  case (2 succs K hre c stack seen)
  then show ?case by simp
next
  case (3 succs K hre c stack seen a)
  then have "c \<in> fst ` set (artifacts hre) - seen"
    by (auto dest: loadArtifact_Inr_dom)
  then have "card (fst ` set (artifacts hre) - insert c seen)
               < card (fst ` set (artifacts hre) - seen)"
    by (intro psubset_card_mono) auto
  then show ?case by simp
qed

text \<open>The targets of an artifact's dependency entries, as the loop enumerates them.\<close>

definition enumerationOrder :: "ZkSyncArtifact \<Rightarrow> string list" where
  "enumerationOrder artifact = map snd (forIn (factoryDeps artifact))"

text \<open>The targets of an artifact's dependency entries in the order of their insertion.\<close>

definition insertionOrder :: "ZkSyncArtifact \<Rightarrow> string list" where
  "insertionOrder artifact = map snd (factoryDeps artifact)"

text \<open>
  \<open>resolveFactoryDependencies\<close> as the specification words it: the pre-order
  depth-first traversal from the root's entries, following every mapping in insertion
  order, with the set of visited identities seeded with the root's identity.
\<close>

definition resolveFactoryDependencies ::
    "constants \<Rightarrow> HardhatRuntimeEnvironment \<Rightarrow> ZkSyncArtifact \<Rightarrow> error + string list" where
  "resolveFactoryDependencies K hre root =
     preorder_dfs insertionOrder K hre (insertionOrder root) (insert (identity root) {})"

section \<open>\<open>getWallet\<close> and \<open>getContractFactoryFromArtifact\<close>\<close>

text \<open>
  \<open>privateKeyOrIndex?: string | number\<close>; numbers are integers here.
  \<open>wallets[i]\<close> is \<open>undefined\<close> (\<open>None\<close>) for a negative \<open>i\<close>.
\<close>

datatype privateKeyOrIndex = PrivateKey string | Index int

definition getWallet ::
    "HardhatRuntimeEnvironment \<Rightarrow> privateKeyOrIndex option \<Rightarrow> error + Wallet option" where
  "getWallet hre privateKeyOrIndex =
     (let privateKey = (case privateKeyOrIndex of Some (PrivateKey k) \<Rightarrow> Some k | _ \<Rightarrow> None);
          accountNumber = (case privateKeyOrIndex of Some (Index n) \<Rightarrow> Some n | _ \<Rightarrow> None)
      in case (case privateKey of Some k \<Rightarrow> if k \<noteq> [] then Some k else None | None \<Rightarrow> None) of
           Some k \<Rightarrow> Inr (Some (Wallet k))
         | None \<Rightarrow>
            (let wallets = accountWallets hre in
             if (case accountNumber of
                   Some n \<Rightarrow> n \<noteq> 0 \<and> n \<ge> int (length wallets)
                 | None \<Rightarrow> False)
             then Inl (ZkSync2JsPluginError
                    ''Account private key with specified index is not found'')
             else if length wallets = 0
             then Inl (ZkSync2JsPluginError ''Accounts are not configured for this network'')
             else (let i = (case accountNumber of Some n \<Rightarrow> n | None \<Rightarrow> 0)
                   in Inr (if 0 \<le> i then Some (wallets ! nat i) else None))))"

record ContractFactory =
  factory_abi :: "string list"
  factory_bytecode :: string
  factory_runner :: "Wallet option"
  factory_deploymentType :: "string option"

text \<open>
  The effects of building a factory, logged in the order in which they happen:
  resolving the default wallet with \<open>getWallet(hre)\<close> and constructing a
  \<open>ContractFactory\<close>.
\<close>

datatype event = ResolveDefaultWallet | ConstructFactory

definition getContractFactoryByAbiAndBytecode ::
    "HardhatRuntimeEnvironment \<Rightarrow> string list \<Rightarrow> string \<Rightarrow> Wallet option \<Rightarrow> string option
       \<Rightarrow> (error + ContractFactory) \<times> event list" where
  "getContractFactoryByAbiAndBytecode hre abi' bytecode' wallet deploymentType =
     (case wallet of
        None \<Rightarrow>
          (case getWallet hre None of
             Inl e \<Rightarrow> (Inl e, [ResolveDefaultWallet])
           | Inr wallet' \<Rightarrow>
               (Inr \<lparr>factory_abi = abi', factory_bytecode = bytecode',
                     factory_runner = wallet', factory_deploymentType = deploymentType\<rparr>,
                [ResolveDefaultWallet, ConstructFactory]))
      | Some w \<Rightarrow>
          (Inr \<lparr>factory_abi = abi', factory_bytecode = bytecode',
                factory_runner = Some w, factory_deploymentType = deploymentType\<rparr>,
           [ConstructFactory]))"

text \<open>
  \<open>walletOrOptions?: Wallet | FactoryOptions\<close> is a tagged union (\<open>None\<close> is
  \<open>undefined\<close>); \<open>FactoryOptions\<close> has the one optional field \<open>wallet\<close>.
  \<open>isFactoryOptions\<close> and \<open>isArtifact\<close> are imported from \<open>./utils\<close>, which is not
  among the sources.  The first is used as the type guard of the union (after it the
  source reads \<open>walletOrOptions.wallet\<close>, and otherwise takes \<open>walletOrOptions\<close> itself
  as the wallet): it is the test of the tag.  The second is a parameter.
\<close>

datatype WalletOrOptions = AWallet Wallet | FactoryOptions "Wallet option"

definition isFactoryOptions :: "WalletOrOptions option \<Rightarrow> bool" where
  "isFactoryOptions walletOrOptions =
     (case walletOrOptions of Some (FactoryOptions w) \<Rightarrow> True | _ \<Rightarrow> False)"

definition abstractContractMessage :: "string \<Rightarrow> string" where
  "abstractContractMessage name =
     ''You are trying to create a contract factory for the contract '' @ name
       @ '', which is abstract and can'' @ [CHR 0x27] @ ''t be deployed.'' @ [CHR 0x0A]
       @ ''If you want to call a contract using '' @ name
       @ '' as its interface use the '' @ [CHR 0x22] @ ''getContractAt'' @ [CHR 0x22]
       @ '' function instead.''"

definition getContractFactoryFromArtifact ::
    "(ZkSyncArtifact \<Rightarrow> bool) \<Rightarrow> HardhatRuntimeEnvironment \<Rightarrow> ZkSyncArtifact
       \<Rightarrow> WalletOrOptions option \<Rightarrow> string option
       \<Rightarrow> (error + ContractFactory) \<times> event list" where
  "getContractFactoryFromArtifact isArtifact hre artifact walletOrOptions deploymentType =
     (if \<not> isArtifact artifact then
        (Inl (ZkSync2JsPluginError
           ''You are trying to create a contract factory from an artifact, but you have not passed a valid artifact parameter.''),
         [])
      else
        (let wallet =
           (if isFactoryOptions walletOrOptions
            then (case walletOrOptions of Some (FactoryOptions w) \<Rightarrow> w | _ \<Rightarrow> None)
            else (case walletOrOptions of Some (AWallet w) \<Rightarrow> Some w | _ \<Rightarrow> None))
         in if bytecode artifact = ''0x'' then
              (Inl (ZkSync2JsPluginError (abstractContractMessage (contractName artifact))), [])
            else getContractFactoryByAbiAndBytecode hre (abi artifact) (bytecode artifact)
                   wallet deploymentType))"

section \<open>Example environments\<close>

definition K0 :: constants where
  "K0 = \<lparr>ZKSOLC_ARTIFACT_FORMAT_VERSION = ''hh-zksolc-artifact-1'',
         ZKVYPER_ARTIFACT_FORMAT_VERSION = ''hh-zkvyper-artifact-1''\<rparr>"

definition zk :: "string \<Rightarrow> string \<Rightarrow> (string \<times> string) list \<Rightarrow> ZkSyncArtifact" where
  "zk name code fdeps =
     \<lparr>format_tag = ''hh-zksolc-artifact-1'', contractName = name, sourceName = ''src'',
      abi = [], bytecode = code, factoryDeps = fdeps\<rparr>"

definition env :: "(string \<times> ZkSyncArtifact) list \<Rightarrow> HardhatRuntimeEnvironment" where
  "env store = \<lparr>artifacts = store, accountWallets = []\<rparr>"

text \<open>The diamond \<open>A \<rightarrow> {B, C}\<close>, \<open>B \<rightarrow> {D}\<close>, \<open>C \<rightarrow> {D}\<close>, \<open>D \<rightarrow> {}\<close>.\<close>

definition diamondA :: ZkSyncArtifact where
  "diamondA = zk ''A'' ''0xaa'' [(''h1'', ''src:B''), (''h2'', ''src:C'')]"

definition diamond :: HardhatRuntimeEnvironment where
  "diamond = env
     [(''src:A'', diamondA),
      (''src:B'', zk ''B'' ''0xbb'' [(''h3'', ''src:D'')]),
      (''src:C'', zk ''C'' ''0xcc'' [(''h4'', ''src:D'')]),
      (''src:D'', zk ''D'' ''0xdd'' [])]"

definition indexKeysRoot :: ZkSyncArtifact where
  "indexKeysRoot = zk ''A'' ''0xaa'' [(''2'', ''src:B''), (''1'', ''src:C'')]"

text \<open>A root whose two dependency keys are array indices, created in the order \<open>2\<close>, \<open>1\<close>.\<close>

definition indexKeys :: HardhatRuntimeEnvironment where
  "indexKeys = env
     [(''src:A'', indexKeysRoot),
      (''src:B'', zk ''B'' ''0xbb'' []),
      (''src:C'', zk ''C'' ''0xcc'' [])]"

text \<open>An artifact compiled by \<open>solc\<close> and one compiled by \<open>zkvyper\<close>.\<close>

definition solcEnv :: HardhatRuntimeEnvironment where
  "solcEnv = env
     [(''src:S'', (zk ''S'' ''0x01'' [])\<lparr>format_tag := ''hh-sol-artifact-1''\<rparr>),
      (''src:V'', (zk ''V'' ''0x02'' [])\<lparr>format_tag := ''hh-zkvyper-artifact-1''\<rparr>)]"

definition abstractArtifact :: ZkSyncArtifact where
  "abstractArtifact = zk ''IGreeter'' ''0x'' []"

text \<open>The mutual cycle \<open>A \<rightarrow> B \<rightarrow> A\<close>, and roots that name themselves.\<close>

definition cycleA :: ZkSyncArtifact where
  "cycleA = zk ''A'' ''0xaa'' [(''h1'', ''src:B'')]"

definition cycle :: HardhatRuntimeEnvironment where
  "cycle = env
     [(''src:A'', cycleA),
      (''src:B'', zk ''B'' ''0xbb'' [(''h2'', ''src:A'')])]"

definition selfRef :: ZkSyncArtifact where
  "selfRef = zk ''A'' ''0xaa'' [(''h1'', ''src:A'')]"

definition selfRefEnv :: HardhatRuntimeEnvironment where
  "selfRefEnv = env [(''src:A'', selfRef)]"







definition missingRoot :: ZkSyncArtifact where
  "missingRoot = zk ''A'' ''0xaa'' [(''h1'', ''src:B''), (''h2'', ''src:C'')]"

definition missing :: HardhatRuntimeEnvironment where
  "missing = env
     [(''src:A'', missingRoot),
      (''src:B'', zk ''B'' ''0xbb'' [(''h3'', ''src:M'')]),
      (''src:C'', zk ''C'' ''0xcc'' [])]"

definition abstractDepRoot :: ZkSyncArtifact where
  "abstractDepRoot = zk ''A'' ''0xaa'' [(''h1'', ''src:I''), (''h2'', ''src:B'')]"

definition abstractDep :: HardhatRuntimeEnvironment where
  "abstractDep = env
     [(''src:A'', abstractDepRoot),
      (''src:I'', zk ''I'' ''0x'' [(''h3'', ''src:B'')]),
      (''src:B'', zk ''B'' ''0xbb'' [])]"

text \<open>
  A store that serves one artifact under two names, as a reader does that accepts both
  the fully-qualified name and the bare contract name: \<open>B\<close> is referenced by the root
  under both.
\<close>

definition aliasRoot :: ZkSyncArtifact where
  "aliasRoot = zk ''A'' ''0xaa'' [(''h1'', ''src:B''), (''h2'', ''B'')]"

definition aliasEnv :: HardhatRuntimeEnvironment where
  "aliasEnv = env
     [(''src:A'', aliasRoot),
      (''src:B'', zk ''B'' ''0xbb'' []),
      (''B'', zk ''B'' ''0xbb'' [])]"

text \<open>A root that names itself by its bare contract name, which the store serves too.\<close>

definition bareNameRoot :: ZkSyncArtifact where
  "bareNameRoot = zk ''A'' ''0xaa'' [(''h1'', ''A'')]"

definition bareNameEnv :: HardhatRuntimeEnvironment where
  "bareNameEnv = env
     [(''src:A'', bareNameRoot),
      (''A'', bareNameRoot)]"

section \<open>Notions used in the statements\<close>

text \<open>No dependency key of the root or of a stored artifact is an array index.\<close>

definition noIndexKeys :: "HardhatRuntimeEnvironment \<Rightarrow> ZkSyncArtifact \<Rightarrow> bool" where
  "noIndexKeys hre root =
     list_all (\<lambda>artifact. list_all (\<lambda>entry. \<not> isArrayIndex (fst entry)) (factoryDeps artifact))
       (root # map snd (artifacts hre))"

text \<open>The message of the error that \<open>loadArtifact\<close> throws, and its condition.\<close>

definition notCompiledMessage :: "string \<Rightarrow> string" where
  "notCompiledMessage name = ''Artifact '' @ name @ '' was not compiled by zksolc or zkvyper''"

definition unexpectedFormat :: "constants \<Rightarrow> ZkSyncArtifact \<Rightarrow> bool" where
  "unexpectedFormat K artifact =
     (format_tag artifact \<noteq> ZKSOLC_ARTIFACT_FORMAT_VERSION K
      \<and> format_tag artifact \<noteq> ZKVYPER_ARTIFACT_FORMAT_VERSION K)"

text \<open>The bytecode of the artifact that \<open>loadArtifact\<close> returns for an identity.\<close>

definition bytecodeOf :: "constants \<Rightarrow> HardhatRuntimeEnvironment \<Rightarrow> string \<Rightarrow> string" where
  "bytecodeOf K hre c = (case loadArtifact K hre c of Inr a \<Rightarrow> bytecode a | Inl e \<Rightarrow> [])"

text \<open>
  The identity \<open>sourceName:contractName\<close> of the artifact that \<open>loadArtifact\<close> returns
  for a name.
\<close>

definition identityOf :: "constants \<Rightarrow> HardhatRuntimeEnvironment \<Rightarrow> string \<Rightarrow> string" where
  "identityOf K hre c = (case loadArtifact K hre c of Inr a \<Rightarrow> identity a | Inl e \<Rightarrow> [])"

text \<open>Every identity of the list loads without error.\<close>

definition loads_ok :: "constants \<Rightarrow> HardhatRuntimeEnvironment \<Rightarrow> string list \<Rightarrow> bool" where
  "loads_ok K hre cs =
     list_all (\<lambda>c. case loadArtifact K hre c of Inr a \<Rightarrow> True | Inl e \<Rightarrow> False) cs"

text \<open>
  \<open>traced K hre s deps r s' new\<close>: a call that starts in state \<open>s\<close> with the local array
  \<open>deps\<close> and ends in \<open>s'\<close> with result \<open>r\<close> has made exactly the loads \<open>new\<close>, in
  this order.
\<close>

definition traced ::
  "constants \<Rightarrow> HardhatRuntimeEnvironment \<Rightarrow> resolver_state \<Rightarrow> string list
     \<Rightarrow> error + string list \<Rightarrow> resolver_state \<Rightarrow> string list \<Rightarrow> bool" where
  "traced K hre s deps r s' new =
     (loads s' = loads s @ new \<and> distinct new \<and> set new \<inter> visited s = {} \<and>
      (case r of
         Inr out \<Rightarrow> out = deps @ map (bytecodeOf K hre) new \<and> visited s' = visited s \<union> set new
                      \<and> loads_ok K hre new
       | Inl e \<Rightarrow> new \<noteq> [] \<and> loadArtifact K hre (last new) = Inl e
                      \<and> loads_ok K hre (butlast new)
                      \<and> visited s' = visited s \<union> set (butlast new)))"

text \<open>The rest of a traversal after the output \<open>xs\<close>.\<close>

fun after :: "string list \<Rightarrow> error + string list \<Rightarrow> error + string list" where
  "after xs (Inl e) = Inl e"
| "after xs (Inr ys) = Inr (xs @ ys)"

text \<open>
  The identities that the root references transitively: the targets of the root's own
  entries, and the targets of the entries of every artifact that loads under a
  referenced identity other than the root's.
\<close>

inductive reachable ::
    "constants \<Rightarrow> HardhatRuntimeEnvironment \<Rightarrow> ZkSyncArtifact \<Rightarrow> string \<Rightarrow> bool"
  for K hre root where
    direct: "c \<in> set (insertionOrder root) \<Longrightarrow> reachable K hre root c"
  | step: "reachable K hre root c \<Longrightarrow> c \<noteq> identity root \<Longrightarrow> loadArtifact K hre c = Inr a
             \<Longrightarrow> c' \<in> set (insertionOrder a) \<Longrightarrow> reachable K hre root c'"

code_pred reachable .

text \<open>
  Every artifact is stored under its own identity \<open>sourceName:contractName\<close>, and
  under no other name.
\<close>

definition wellKeyed :: "HardhatRuntimeEnvironment \<Rightarrow> bool" where
  "wellKeyed hre = list_all (\<lambda>entry. identity (snd entry) = fst entry) (artifacts hre)"

text \<open>The state in which \<open>extractFactoryDeps\<close> starts the recursion.\<close>

definition start :: "ZkSyncArtifact \<Rightarrow> resolver_state" where
  "start root = \<lparr>visited = insert (identity root) {}, loads = []\<rparr>"

text \<open>
  The environment in which the artifact stored under each name has the bytecode that
  \<open>g\<close> gives for the name, and the part of a run that does not mention bytecodes.
\<close>

definition withBytecodes ::
    "(string \<Rightarrow> string) \<Rightarrow> HardhatRuntimeEnvironment \<Rightarrow> HardhatRuntimeEnvironment" where
  "withBytecodes g hre =
     hre\<lparr>artifacts :=
           map (\<lambda>entry. (fst entry, (snd entry)\<lparr>bytecode := g (fst entry)\<rparr>)) (artifacts hre)\<rparr>"

definition outcome ::
    "(error + string list) \<times> resolver_state \<Rightarrow> (error + unit) \<times> resolver_state" where
  "outcome p = (case fst p of Inl e \<Rightarrow> Inl e | Inr out \<Rightarrow> Inr (), snd p)"

section \<open>The loads of a resolution\<close>

lemma forLoop_traced:
  "extractFactoryDepsRecursive K hre artifact s = (r, s') \<Longrightarrow> \<exists>new. traced K hre s [] r s' new"
  "forLoop K hre es deps s = (r, s') \<Longrightarrow> \<exists>new. traced K hre s deps r s' new"
proof (induction K hre artifact s and K hre es deps s arbitrary: r s' and r s'
       rule: extractFactoryDepsRecursive_forLoop.induct)
  case (1 K hre artifact s)
  then show ?case by simp
next
  case (2 K hre deps s)
  then have "traced K hre s deps r s' []" by (auto simp: traced_def loads_ok_def)
  then show ?case ..
next
  case (3 K hre dependencyHash c rest deps s)
  show ?case
  proof (cases "c \<in> visited s")
    case True
    with 3 show ?thesis by simp
  next
    case nv: False
    show ?thesis
    proof (cases "loadArtifact K hre c")
      case (Inl e)
      with nv 3(4) have "traced K hre s deps r s' [c]"
        by (auto simp: traced_def loads_ok_def)
      then show ?thesis ..
    next
      case (Inr a)
      let ?s0 = "s\<lparr>loads := loads s @ [c], visited := insert c (visited s)\<rparr>"
      obtain r1 s1 where rec: "extractFactoryDepsRecursive K hre a ?s0 = (r1, s1)"
        by (cases "extractFactoryDepsRecursive K hre a ?s0")
      from 3(1) [OF nv Inr rec] obtain new1 where t1: "traced K hre ?s0 [] r1 s1 new1" ..
      have bc: "bytecodeOf K hre c = bytecode a" and okc: "loads_ok K hre [c]"
        using Inr by (simp_all add: bytecodeOf_def loads_ok_def)
      show ?thesis
      proof (cases r1)
        case e: (Inl e)
        with nv Inr rec 3(4) have res: "r = Inl e" "s' = s1" by auto
        from t1 e nv okc have "traced K hre s deps r s' (c # new1)"
          unfolding res by (auto simp: traced_def loads_ok_def butlast_append)
        then show ?thesis ..
      next
        case t: (Inr tr)
        with nv Inr rec 3(4)
        have loop: "forLoop K hre rest (deps @ [bytecode a] @ tr) s1 = (r, s')" by simp
        from 3(2) [OF nv Inr rec [symmetric] t loop]
        obtain new2 where t2: "traced K hre s1 (deps @ [bytecode a] @ tr) r s' new2" ..
        from t1 t t2 nv okc bc have "traced K hre s deps r s' (c # new1 @ new2)"
          by (cases r) (auto simp: traced_def loads_ok_def butlast_append)
        then show ?thesis ..
      qed
    qed
  qed
qed


section \<open>Enumeration order and dependency keys\<close>

lemma set_forIn: "set (forIn obj) = set obj"
  by (auto simp: forIn_def)

lemma forIn_no_index:
  "\<forall>k \<in> fst ` set obj. \<not> isArrayIndex k \<Longrightarrow> forIn obj = obj"
proof -
  assume a: "\<forall>k \<in> fst ` set obj. \<not> isArrayIndex k"
  then have "filter (\<lambda>p. isArrayIndex (fst p)) obj = []"
    by (auto simp: filter_empty_conv)
  moreover from a have "filter (\<lambda>p. \<not> isArrayIndex (fst p)) obj = obj"
    by (auto simp: filter_id_conv)
  ultimately show ?thesis by (simp add: forIn_def)
qed


section \<open>The resolver is a pre-order depth-first traversal\<close>

lemma after_Nil [simp]: "after [] x = x"
  by (cases x) simp_all

lemma forLoop_preorder:
  "extractFactoryDepsRecursive K hre artifact s = (r, s') \<Longrightarrow>
     (case r of
        Inl e \<Rightarrow> \<forall>k. preorder_dfs enumerationOrder K hre (enumerationOrder artifact @ k) (visited s) = Inl e
      | Inr out \<Rightarrow> \<forall>k. preorder_dfs enumerationOrder K hre (enumerationOrder artifact @ k) (visited s)
                     = after out (preorder_dfs enumerationOrder K hre k (visited s')))"
  "forLoop K hre es deps s = (r, s') \<Longrightarrow>
     (case r of
        Inl e \<Rightarrow> \<forall>k. preorder_dfs enumerationOrder K hre (map snd es @ k) (visited s) = Inl e
      | Inr out \<Rightarrow> \<exists>out'. out = deps @ out' \<and>
           (\<forall>k. preorder_dfs enumerationOrder K hre (map snd es @ k) (visited s)
                     = after out' (preorder_dfs enumerationOrder K hre k (visited s'))))"
proof (induction K hre artifact s and K hre es deps s arbitrary: r s' and r s'
       rule: extractFactoryDepsRecursive_forLoop.induct)
  case (1 K hre artifact s)
  from 1(2) have "forLoop K hre (forIn (factoryDeps artifact)) [] s = (r, s')" by simp
  from 1(1) [OF this] show ?case
    by (cases r) (auto simp: enumerationOrder_def)
next
  case (2 K hre deps s)
  then show ?case by auto
next
  case (3 K hre dependencyHash c rest deps s)
  show ?case
  proof (cases "c \<in> visited s")
    case True
    with 3(3) [OF _ ] 3(4) show ?thesis by (cases r) auto
  next
    case nv: False
    show ?thesis
    proof (cases "loadArtifact K hre c")
      case (Inl e)
      with nv 3(4) show ?thesis by auto
    next
      case (Inr a)
      let ?s0 = "s\<lparr>loads := loads s @ [c], visited := insert c (visited s)\<rparr>"
      obtain r1 s1 where rec: "extractFactoryDepsRecursive K hre a ?s0 = (r1, s1)"
        by (cases "extractFactoryDepsRecursive K hre a ?s0")
      note ih1 = 3(1) [OF nv Inr rec]
      show ?thesis
      proof (cases r1)
        case e: (Inl e)
        with nv Inr rec 3(4) have res: "r = Inl e" "s' = s1" by auto
        from ih1 e nv Inr show ?thesis unfolding res by simp
      next
        case t: (Inr tr)
        with nv Inr rec 3(4)
        have loop: "forLoop K hre rest (deps @ [bytecode a] @ tr) s1 = (r, s')" by simp
        note ih2 = 3(2) [OF nv Inr rec [symmetric] t loop]
        from ih1 t have h1: "\<And>k. preorder_dfs enumerationOrder K hre (enumerationOrder a @ k)
              (insert c (visited s)) = after tr (preorder_dfs enumerationOrder K hre k (visited s1))"
          by simp
        show ?thesis
        proof (cases r)
          case (Inl e)
          with ih2 have "\<And>k. preorder_dfs enumerationOrder K hre (map snd rest @ k) (visited s1) = Inl e"
            by simp
          with h1 nv Inr Inl show ?thesis by simp
        next
          case (Inr out)
          with ih2 obtain out2 where o2: "out = (deps @ [bytecode a] @ tr) @ out2"
            and d2: "\<And>k. preorder_dfs enumerationOrder K hre (map snd rest @ k) (visited s1)
                       = after out2 (preorder_dfs enumerationOrder K hre k (visited s'))"
            by auto
          have "\<And>k. preorder_dfs enumerationOrder K hre (map snd ((dependencyHash, c) # rest) @ k) (visited s)
                 = after (bytecode a # tr @ out2) (preorder_dfs enumerationOrder K hre k (visited s'))"
          proof -
            fix k
            show "preorder_dfs enumerationOrder K hre (map snd ((dependencyHash, c) # rest) @ k) (visited s)
                 = after (bytecode a # tr @ out2) (preorder_dfs enumerationOrder K hre k (visited s'))"
              using nv \<open>loadArtifact K hre c = Inr a\<close> h1 [of "map snd rest @ k"] d2 [of k]
              by (cases "preorder_dfs enumerationOrder K hre k (visited s')") simp_all
          qed
          with o2 Inr show ?thesis by simp
        qed
      qed
    qed
  qed
qed

lemma preorder_dfs_cong_succs:
  "(\<And>c a. loadArtifact K hre c = Inr a \<Longrightarrow> f a = g a) \<Longrightarrow>
     preorder_dfs f K hre stack seen = preorder_dfs g K hre stack seen"
proof (induction f K hre stack seen rule: preorder_dfs.induct)
  case (1 succs K hre seen)
  show ?case by simp
next
  case (2 succs K hre c stack seen)
  show ?case
  proof (cases "c \<in> seen")
    case True
    with 2 show ?thesis by simp
  next
    case False
    show ?thesis
    proof (cases "loadArtifact K hre c")
      case (Inl e)
      with False show ?thesis by simp
    next
      case (Inr a)
      from 2(2) [OF False Inr] 2(3) 2(3) [OF Inr] False Inr show ?thesis by simp
    qed
  qed
qed

lemma extractFactoryDeps_preorder:
  "extractFactoryDeps K hre root
     = preorder_dfs enumerationOrder K hre (enumerationOrder root) (insert (identity root) {})"
proof -
  obtain r s' where run: "extractFactoryDeps_run K hre root = (r, s')"
    by (cases "extractFactoryDeps_run K hre root")
  from forLoop_preorder(1) [OF run [unfolded extractFactoryDeps_run_def]]
  have "preorder_dfs enumerationOrder K hre (enumerationOrder root @ []) (insert (identity root) {}) = r"
    by (cases r) (auto dest: spec [of _ "[]"])
  with run show ?thesis by (simp add: extractFactoryDeps_def)
qed

lemma diamond_example:
  "extractFactoryDeps K0 diamond diamondA = Inr [''0xbb'', ''0xdd'', ''0xcc'']"
  by code_simp

lemma loadArtifact_in_store:
  "loadArtifact K hre c = Inr a \<Longrightarrow> a \<in> snd ` set (artifacts hre)"
  by (auto simp: loadArtifact_def readArtifact_def dest: map_of_SomeD
           split: option.splits if_splits intro: rev_image_eqI)

lemma noIndexKeys_orders:
  assumes "noIndexKeys hre root"
  shows "enumerationOrder root = insertionOrder root"
    and "loadArtifact K hre c = Inr a \<Longrightarrow> enumerationOrder a = insertionOrder a"
proof -
  from assms have "\<forall>k \<in> fst ` set (factoryDeps root). \<not> isArrayIndex k"
    by (auto simp: noIndexKeys_def list_all_iff)
  then show "enumerationOrder root = insertionOrder root"
    by (simp add: enumerationOrder_def insertionOrder_def forIn_no_index)
next
  assume "loadArtifact K hre c = Inr a"
  then have "a \<in> snd ` set (artifacts hre)" by (rule loadArtifact_in_store)
  with assms have "\<forall>k \<in> fst ` set (factoryDeps a). \<not> isArrayIndex k"
    by (auto simp: noIndexKeys_def list_all_iff)
  then show "enumerationOrder a = insertionOrder a"
    by (simp add: enumerationOrder_def insertionOrder_def forIn_no_index)
qed

section \<open>Closure of the visited set and reachability\<close>

lemma set_enumerationOrder: "set (enumerationOrder a) = set (insertionOrder a)"
  by (simp add: enumerationOrder_def insertionOrder_def set_forIn)

lemma traced_visited_mono:
  "traced K hre s deps r s' new \<Longrightarrow> visited s \<subseteq> visited s'"
  by (cases r) (auto simp: traced_def)

lemma visited_mono:
  "extractFactoryDepsRecursive K hre artifact s = (r, s') \<Longrightarrow> visited s \<subseteq> visited s'"
  "forLoop K hre es deps s = (r, s') \<Longrightarrow> visited s \<subseteq> visited s'"
  by (blast dest: forLoop_traced traced_visited_mono)+

lemma forLoop_closed:
  "extractFactoryDepsRecursive K hre artifact s = (Inr out, s') \<Longrightarrow>
     set (enumerationOrder artifact) \<subseteq> visited s' \<and>
     (\<forall>c a. c \<in> visited s' - visited s \<longrightarrow> loadArtifact K hre c = Inr a
            \<longrightarrow> set (enumerationOrder a) \<subseteq> visited s')"
  "forLoop K hre es deps s = (Inr out, s') \<Longrightarrow>
     snd ` set es \<subseteq> visited s' \<and>
     (\<forall>c a. c \<in> visited s' - visited s \<longrightarrow> loadArtifact K hre c = Inr a
            \<longrightarrow> set (enumerationOrder a) \<subseteq> visited s')"
proof (induction K hre artifact s and K hre es deps s arbitrary: out s' and out s'
       rule: extractFactoryDepsRecursive_forLoop.induct)
  case (1 K hre artifact s)
  from 1(2) have "forLoop K hre (forIn (factoryDeps artifact)) [] s = (Inr out, s')" by simp
  from 1(1) [OF this] show ?case by (simp add: enumerationOrder_def)
next
  case (2 K hre deps s)
  then show ?case by auto
next
  case (3 K hre dependencyHash c rest deps s)
  show ?case
  proof (cases "c \<in> visited s")
    case True
    with 3(4) have loop: "forLoop K hre rest deps s = (Inr out, s')" by simp
    from visited_mono(2) [OF loop] have "visited s \<subseteq> visited s'" .
    with 3(3) [OF _ loop] True show ?thesis by auto
  next
    case nv: False
    show ?thesis
    proof (cases "loadArtifact K hre c")
      case (Inl e)
      with nv 3(4) show ?thesis by simp
    next
      case (Inr a)
      let ?s0 = "s\<lparr>loads := loads s @ [c], visited := insert c (visited s)\<rparr>"
      obtain r1 s1 where rec: "extractFactoryDepsRecursive K hre a ?s0 = (r1, s1)"
        by (cases "extractFactoryDepsRecursive K hre a ?s0")
      show ?thesis
      proof (cases r1)
        case (Inl e)
        with nv Inr rec 3(4) show ?thesis by simp
      next
        case t: (Inr tr)
        with nv Inr rec 3(4)
        have loop: "forLoop K hre rest (deps @ [bytecode a] @ tr) s1 = (Inr out, s')" by simp
        from 3(1) [OF nv Inr rec [unfolded t]]
        have i1: "set (enumerationOrder a) \<subseteq> visited s1"
          and c1: "\<And>d b. d \<in> visited s1 \<Longrightarrow> d \<notin> visited ?s0 \<Longrightarrow> loadArtifact K hre d = Inr b
                      \<Longrightarrow> set (enumerationOrder b) \<subseteq> visited s1"
          by blast+
        from 3(2) [OF nv Inr rec [symmetric] t loop]
        have i2: "snd ` set rest \<subseteq> visited s'"
          and c2: "\<And>d b. d \<in> visited s' \<Longrightarrow> d \<notin> visited s1 \<Longrightarrow> loadArtifact K hre d = Inr b
                      \<Longrightarrow> set (enumerationOrder b) \<subseteq> visited s'"
          by blast+
        from visited_mono(1) [OF rec] have m1: "insert c (visited s) \<subseteq> visited s1" by simp
        from visited_mono(2) [OF loop] have m2: "visited s1 \<subseteq> visited s'" .
        have "c \<in> visited s'" using m1 m2 by auto
        moreover have "set (enumerationOrder b) \<subseteq> visited s'"
          if d: "d \<in> visited s'" "d \<notin> visited s" and l: "loadArtifact K hre d = Inr b" for d b
        proof (cases "d = c")
          case True
          with l Inr have "b = a" by simp
          with i1 m2 show ?thesis by auto
        next
          case dc: False
          show ?thesis
          proof (cases "d \<in> visited s1")
            case True
            with dc d(2) have "d \<notin> visited ?s0" by simp
            from c1 [OF True this l] m2 show ?thesis by auto
          next
            case False
            from c2 [OF d(1) False l] show ?thesis .
          qed
        qed
        ultimately show ?thesis using i2 by auto
      qed
    qed
  qed
qed


lemma forLoop_loads_within:
  "(\<forall>c a c'. R c \<longrightarrow> c \<notin> V0 \<longrightarrow> loadArtifact K hre c = Inr a
        \<longrightarrow> c' \<in> set (enumerationOrder a) \<longrightarrow> R c') \<Longrightarrow>
   V0 \<subseteq> visited s \<Longrightarrow> (\<forall>c \<in> set (enumerationOrder artifact). R c) \<Longrightarrow>
   extractFactoryDepsRecursive K hre artifact s = (r, s') \<Longrightarrow>
     (\<forall>c \<in> set (loads s'). c \<in> set (loads s) \<or> R c)"
  "(\<forall>c a c'. R c \<longrightarrow> c \<notin> V0 \<longrightarrow> loadArtifact K hre c = Inr a
        \<longrightarrow> c' \<in> set (enumerationOrder a) \<longrightarrow> R c') \<Longrightarrow>
   V0 \<subseteq> visited s \<Longrightarrow> (\<forall>c \<in> snd ` set es. R c) \<Longrightarrow>
   forLoop K hre es deps s = (r, s') \<Longrightarrow>
     (\<forall>c \<in> set (loads s'). c \<in> set (loads s) \<or> R c)"
proof (induction K hre artifact s and K hre es deps s arbitrary: r s' and r s'
       rule: extractFactoryDepsRecursive_forLoop.induct)
  case (1 K hre artifact s)
  from 1(5) have "forLoop K hre (forIn (factoryDeps artifact)) [] s = (r, s')" by simp
  moreover from 1(4) have "\<forall>c \<in> snd ` set (forIn (factoryDeps artifact)). R c"
    by (simp add: enumerationOrder_def)
  ultimately show ?case using 1(1) [OF 1(2) 1(3)] by blast
next
  case (2 K hre deps s)
  then show ?case by auto
next
  case (3 K hre dependencyHash c rest deps s)
  note closed = 3(4) and V0 = 3(5) and R = 3(6) and res = 3(7)
  from R have Rc: "R c" and Rrest: "\<forall>d \<in> snd ` set rest. R d" by auto
  show ?case
  proof (cases "c \<in> visited s")
    case True
    with res have loop: "forLoop K hre rest deps s = (r, s')" by simp
    from 3(3) [OF _ closed V0 Rrest loop] True show ?thesis by simp
  next
    case nv: False
    with V0 have cV0: "c \<notin> V0" by auto
    show ?thesis
    proof (cases "loadArtifact K hre c")
      case (Inl e)
      with nv res Rc show ?thesis by auto
    next
      case (Inr a)
      let ?s0 = "s\<lparr>loads := loads s @ [c], visited := insert c (visited s)\<rparr>"
      obtain r1 s1 where rec: "extractFactoryDepsRecursive K hre a ?s0 = (r1, s1)"
        by (cases "extractFactoryDepsRecursive K hre a ?s0")
      from closed Rc cV0 Inr have Ra: "\<forall>d \<in> set (enumerationOrder a). R d" by blast
      from V0 have V0': "V0 \<subseteq> visited ?s0" by auto
      from 3(1) [OF nv Inr closed V0' Ra rec] Rc
      have l1: "\<forall>d \<in> set (loads s1). d \<in> set (loads s) \<or> R d" by auto
      show ?thesis
      proof (cases r1)
        case (Inl e)
        with nv Inr rec res have "s' = s1" by simp
        with l1 show ?thesis by simp
      next
        case t: (Inr tr)
        with nv Inr rec res
        have loop: "forLoop K hre rest (deps @ [bytecode a] @ tr) s1 = (r, s')" by simp
        from visited_mono(1) [OF rec] V0' have V1: "V0 \<subseteq> visited s1" by blast
        from 3(2) [OF nv Inr rec [symmetric] t closed V1 Rrest loop] l1
        show ?thesis by blast
      qed
    qed
  qed
qed

lemma run_traced:
  "traced K hre (start root) [] (extractFactoryDeps K hre root)
     (snd (extractFactoryDeps_run K hre root)) (loaded K hre root)"
proof -
  obtain r s' where run: "extractFactoryDeps_run K hre root = (r, s')"
    by (cases "extractFactoryDeps_run K hre root")
  then have "extractFactoryDepsRecursive K hre root (start root) = (r, s')"
    by (simp add: extractFactoryDeps_run_def start_def)
  from forLoop_traced(1) [OF this] obtain new where t: "traced K hre (start root) [] r s' new" ..
  then have "new = loads s'" by (simp add: traced_def start_def)
  with t run show ?thesis by (simp add: extractFactoryDeps_def loaded_def)
qed

lemma loaded_distinct: "distinct (loaded K hre root)"
  using run_traced [of K hre root] by (simp add: traced_def)

lemma root_not_loaded: "identity root \<notin> set (loaded K hre root)"
  using run_traced [of K hre root] by (auto simp: traced_def start_def)

lemma success_output:
  assumes "extractFactoryDeps K hre root = Inr out"
  shows "out = map (bytecodeOf K hre) (loaded K hre root)"
    and "loads_ok K hre (loaded K hre root)"
    and "visited (snd (extractFactoryDeps_run K hre root))
           = insert (identity root) (set (loaded K hre root))"
  using run_traced [of K hre root] assms by (auto simp: traced_def start_def)

lemma failure_last_load:
  assumes "extractFactoryDeps K hre root = Inl e"
  shows "loaded K hre root \<noteq> []"
    and "loadArtifact K hre (last (loaded K hre root)) = Inl e"
    and "loads_ok K hre (butlast (loaded K hre root))"
  using run_traced [of K hre root] assms by (auto simp: traced_def start_def)

lemma loaded_reachable:
  assumes "c \<in> set (loaded K hre root)"
  shows "reachable K hre root c"
proof -
  obtain r s' where run: "extractFactoryDepsRecursive K hre root (start root) = (r, s')"
    by (cases "extractFactoryDepsRecursive K hre root (start root)")
  have closed: "\<forall>c a c'. reachable K hre root c \<longrightarrow> c \<notin> {identity root}
      \<longrightarrow> loadArtifact K hre c = Inr a \<longrightarrow> c' \<in> set (enumerationOrder a)
      \<longrightarrow> reachable K hre root c'"
    by (auto simp: set_enumerationOrder intro: reachable.step)
  have "\<forall>c \<in> set (enumerationOrder root). reachable K hre root c"
    by (auto simp: set_enumerationOrder intro: reachable.direct)
  from forLoop_loads_within(1) [OF closed _ this run]
  have "\<forall>c \<in> set (loads s'). reachable K hre root c" by (simp add: start_def)
  moreover from run have "loaded K hre root = loads s'"
    by (simp add: loaded_def extractFactoryDeps_run_def start_def)
  ultimately show ?thesis using assms by simp
qed

lemma reachable_loaded:
  assumes ok: "extractFactoryDeps K hre root = Inr out"
    and r: "reachable K hre root c"
  shows "c \<in> insert (identity root) (set (loaded K hre root))"
proof -
  let ?V = "insert (identity root) (set (loaded K hre root))"
  obtain s' where run: "extractFactoryDepsRecursive K hre root (start root) = (Inr out, s')"
    using ok by (cases "extractFactoryDepsRecursive K hre root (start root)")
                (simp add: extractFactoryDeps_def extractFactoryDeps_run_def start_def)
  then have s': "s' = snd (extractFactoryDeps_run K hre root)"
    by (simp add: extractFactoryDeps_run_def start_def)
  have V: "visited s' = ?V" unfolding s' by (rule success_output(3) [OF ok])
  from forLoop_closed(1) [OF run] V
  have top: "set (enumerationOrder root) \<subseteq> ?V"
    and cl: "\<And>d a. d \<in> ?V \<Longrightarrow> d \<noteq> identity root \<Longrightarrow> loadArtifact K hre d = Inr a
                \<Longrightarrow> set (enumerationOrder a) \<subseteq> ?V"
    by (auto simp: start_def)
  from r show ?thesis
  proof induction
    case (direct c)
    with top show ?case by (auto simp: set_enumerationOrder)
  next
    case (step c a c')
    from cl [OF step.IH step.hyps(2) step.hyps(3)] step.hyps(4)
    show ?case by (auto simp: set_enumerationOrder)
  qed
qed


lemma count_list_distinct:
  "distinct xs \<Longrightarrow> count_list xs x = (if x \<in> set xs then 1 else 0)"
  by (induction xs) auto

lemma loaded_count:
  "count_list (loaded K hre root) c = (if c \<in> set (loaded K hre root) then 1 else 0)"
  by (rule count_list_distinct) (rule loaded_distinct)


lemma ex_diamond_loaded: "loaded K0 diamond diamondA = [''src:B'', ''src:D'', ''src:C'']"
  by code_simp




lemma forLoop_all_visited:
  "\<forall>c \<in> snd ` set es. c \<in> visited s \<Longrightarrow> forLoop K hre es deps s = (Inr deps, s)"
  by (induction es) auto

lemma loadArtifact_wellKeyed:
  assumes "wellKeyed hre" and "loadArtifact K hre c = Inr a"
  shows "identity a = c"
proof -
  from assms(2) have "map_of (artifacts hre) c = Some a"
    by (auto simp: loadArtifact_def readArtifact_def split: option.splits if_splits)
  then have "(c, a) \<in> set (artifacts hre)" by (rule map_of_SomeD)
  with assms(1) show ?thesis by (auto simp: wellKeyed_def list_all_iff)
qed

lemma identityOf_wellKeyed:
  assumes "wellKeyed hre" and "loads_ok K hre cs"
  shows "map (identityOf K hre) cs = cs"
proof (rule map_idI)
  fix c assume "c \<in> set cs"
  with assms(2) obtain a where a: "loadArtifact K hre c = Inr a"
    by (cases "loadArtifact K hre c") (auto simp: loads_ok_def list_all_iff)
  from loadArtifact_wellKeyed [OF assms(1) a] a show "identityOf K hre c = c"
    by (simp add: identityOf_def)
qed

lemma loadArtifact_error:
  "loadArtifact K hre c = Inl e \<Longrightarrow> e = NotFound c \<or> e = ZkSync2JsPluginError (notCompiledMessage c)"
  by (auto simp: loadArtifact_def readArtifact_def notCompiledMessage_def
           split: option.splits if_splits)

lemma failing_dependency_fails:
  assumes r: "reachable K hre root c" and n: "c \<noteq> identity root"
    and l: "loadArtifact K hre c = Inl e"
  shows "\<exists>e'. extractFactoryDeps K hre root = Inl e'"
proof (cases "extractFactoryDeps K hre root")
  case (Inl e')
  then show ?thesis by blast
next
  case (Inr out)
  from reachable_loaded [OF Inr r] n have "c \<in> set (loaded K hre root)" by simp
  with success_output(2) [OF Inr] l show ?thesis
    by (auto simp: loads_ok_def list_all_iff)
qed

section \<open>Independence of the bytecodes\<close>

lemma map_of_withBytecodes:
  "map_of (map (\<lambda>entry. (fst entry, (snd entry)\<lparr>bytecode := g (fst entry)\<rparr>)) xs) c
     = map_option (\<lambda>a. a\<lparr>bytecode := g c\<rparr>) (map_of xs c)"
  by (induction xs) auto

lemma loadArtifact_withBytecodes:
  "loadArtifact K (withBytecodes g hre) c
     = (case loadArtifact K hre c of Inl e \<Rightarrow> Inl e | Inr a \<Rightarrow> Inr (a\<lparr>bytecode := g c\<rparr>))"
  by (simp add: loadArtifact_def readArtifact_def withBytecodes_def map_of_withBytecodes
           split: option.splits)

lemma outcome_simps [simp]:
  "outcome (Inl e, s) = (Inl e, s)" "outcome (Inr out, s) = (Inr (), s)"
  by (simp_all add: outcome_def)

lemma forLoop_withBytecodes:
  "factoryDeps artifact' = factoryDeps artifact \<Longrightarrow>
     outcome (extractFactoryDepsRecursive K (withBytecodes g hre) artifact' s)
       = outcome (extractFactoryDepsRecursive K hre artifact s)"
  "outcome (forLoop K (withBytecodes g hre) es deps' s) = outcome (forLoop K hre es deps s)"
proof (induction K hre artifact s and K hre es deps s arbitrary: artifact' and deps'
       rule: extractFactoryDepsRecursive_forLoop.induct)
  case (1 K hre artifact s)
  from 1(1) [of "[]"] 1(2) show ?case by simp
next
  case (2 K hre deps s)
  show ?case by simp
next
  case (3 K hre dependencyHash c rest deps s)
  show ?case
  proof (cases "c \<in> visited s")
    case True
    with 3(3) [of deps'] show ?thesis by simp
  next
    case nv: False
    show ?thesis
    proof (cases "loadArtifact K hre c")
      case (Inl e)
      with nv show ?thesis by (simp add: loadArtifact_withBytecodes)
    next
      case (Inr a)
      let ?s0 = "s\<lparr>loads := loads s @ [c], visited := insert c (visited s)\<rparr>"
      let ?a' = "a\<lparr>bytecode := g c\<rparr>"
      obtain r1 s1 where rec: "extractFactoryDepsRecursive K hre a ?s0 = (r1, s1)"
        by (cases "extractFactoryDepsRecursive K hre a ?s0")
      obtain r1' s1' where rec': "extractFactoryDepsRecursive K (withBytecodes g hre) ?a' ?s0 = (r1', s1')"
        by (cases "extractFactoryDepsRecursive K (withBytecodes g hre) ?a' ?s0")
      from 3(1) [OF nv Inr, of ?a'] rec rec' have o: "outcome (r1', s1') = outcome (r1, s1)"
        by simp
      show ?thesis
      proof (cases r1)
        case e: (Inl e)
        with o have "r1' = Inl e" "s1' = s1" by (cases r1'; simp)+
        with nv Inr rec rec' e show ?thesis
          by (simp add: loadArtifact_withBytecodes del: extractFactoryDepsRecursive.simps)
      next
        case t: (Inr tr)
        with o obtain tr' where t': "r1' = Inr tr'" and s1: "s1' = s1" by (cases r1') simp_all
        from 3(2) [OF nv Inr rec [symmetric] t, of "deps' @ [bytecode ?a'] @ tr'"]
        have "outcome (forLoop K (withBytecodes g hre) rest (deps' @ [bytecode ?a'] @ tr') s1)
              = outcome (forLoop K hre rest (deps @ [bytecode a] @ tr) s1)" .
        with nv Inr rec rec' t t' s1 show ?thesis
          by (simp add: loadArtifact_withBytecodes del: extractFactoryDepsRecursive.simps)
      qed
    qed
  qed
qed

lemma run_withBytecodes:
  "outcome (extractFactoryDeps_run K (withBytecodes g hre) root)
     = outcome (extractFactoryDeps_run K hre root)"
  unfolding extractFactoryDeps_run_def by (rule forLoop_withBytecodes(1)) simp

lemma loaded_withBytecodes: "loaded K (withBytecodes g hre) root = loaded K hre root"
  using run_withBytecodes [of K g hre root] by (simp add: loaded_def outcome_def)

lemma bytecodeOf_withBytecodes:
  "loads_ok K (withBytecodes g hre) cs \<Longrightarrow> map (bytecodeOf K (withBytecodes g hre)) cs = map g cs"
  by (induction cs)
     (auto simp: loads_ok_def bytecodeOf_def loadArtifact_withBytecodes split: sum.splits)

lemma extractFactoryDeps_withBytecodes:
  "extractFactoryDeps K (withBytecodes g hre) root
     = (case extractFactoryDeps K hre root of
          Inl e \<Rightarrow> Inl e
        | Inr out \<Rightarrow> Inr (map g (loaded K hre root)))"
proof (cases "extractFactoryDeps K hre root")
  case (Inl e)
  with run_withBytecodes [of K g hre root] show ?thesis
    by (auto simp: extractFactoryDeps_def outcome_def split: sum.splits)
next
  case (Inr out)
  with run_withBytecodes [of K g hre root]
  obtain out' where o: "extractFactoryDeps K (withBytecodes g hre) root = Inr out'"
    by (auto simp: extractFactoryDeps_def outcome_def split: sum.splits)
  from success_output(1,2) [OF o] have "out' = map g (loaded K hre root)"
    by (simp add: loaded_withBytecodes bytecodeOf_withBytecodes)
  with o Inr show ?thesis by simp
qed

section \<open>The examples evaluated\<close>


lemma ex_selfRef:
  "extractFactoryDeps K0 selfRefEnv selfRef = Inr []"
  "loaded K0 selfRefEnv selfRef = []"
  by code_simp+




lemma ex_missing:
  "extractFactoryDeps K0 missing missingRoot = Inl (NotFound ''src:M'')"
  "loaded K0 missing missingRoot = [''src:B'', ''src:M'']"
  by code_simp+

lemma ex_alias:
  "extractFactoryDeps K0 aliasEnv aliasRoot = Inr [''0xbb'', ''0xbb'']"
  "loaded K0 aliasEnv aliasRoot = [''src:B'', ''B'']"
  "map (identityOf K0 aliasEnv) (loaded K0 aliasEnv aliasRoot) = [''src:B'', ''src:B'']"
  by code_simp+

lemma ex_bareName:
  "extractFactoryDeps K0 bareNameEnv bareNameRoot = Inr [''0xaa'']"
  "loaded K0 bareNameEnv bareNameRoot = [''A'']"
  "loadArtifact K0 bareNameEnv ''A'' = Inr bareNameRoot"
  "identity bareNameRoot = ''src:A''"
  "bytecode bareNameRoot = ''0xaa''"
  by code_simp+

lemma ex_diamond_wellKeyed: "wellKeyed diamond"
  by code_simp

lemma ex_abstractDep:
  "extractFactoryDeps K0 abstractDep abstractDepRoot = Inr [''0x'', ''0xbb'']"
  "loaded K0 abstractDep abstractDepRoot = [''src:I'', ''src:B'']"
  by code_simp+


section \<open>Claims\<close>

text \<open>
  C1 (amended).  For every artifact graph, \<open>extractFactoryDeps\<close> returns the bytecodes
  in pre-order depth-first first-discovery order, following each artifact's
  \<open>factoryDeps\<close> in the enumeration order of \<open>for ... in\<close>; being a function, it
  returns the same sequence whenever it is run on the same graph.  When no dependency
  key is an array index, the enumeration order is the insertion order and the result
  is the one of \<open>resolveFactoryDependencies\<close>.  For \<open>A \<rightarrow> {B, C}\<close>, \<open>B \<rightarrow> {D}\<close>,
  \<open>C \<rightarrow> {D}\<close>, \<open>D \<rightarrow> {}\<close> the output is \<open>[B.bytecode, D.bytecode, C.bytecode]\<close>.
\<close>

theorem C1_preorder_enumeration_order:
  "extractFactoryDeps K hre root
     = preorder_dfs enumerationOrder K hre (enumerationOrder root) (insert (identity root) {})
   \<and> (noIndexKeys hre root \<longrightarrow>
        extractFactoryDeps K hre root = resolveFactoryDependencies K hre root)
   \<and> extractFactoryDeps K0 diamond diamondA = Inr [''0xbb'', ''0xdd'', ''0xcc'']"
proof (intro conjI impI)
  show "extractFactoryDeps K hre root
     = preorder_dfs enumerationOrder K hre (enumerationOrder root) (insert (identity root) {})"
    by (rule extractFactoryDeps_preorder)
next
  assume n: "noIndexKeys hre root"
  have "preorder_dfs enumerationOrder K hre (enumerationOrder root) (insert (identity root) {})
        = preorder_dfs insertionOrder K hre (enumerationOrder root) (insert (identity root) {})"
    by (rule preorder_dfs_cong_succs) (rule noIndexKeys_orders(2) [OF n])
  then show "extractFactoryDeps K hre root = resolveFactoryDependencies K hre root"
    by (simp add: extractFactoryDeps_preorder resolveFactoryDependencies_def
                  noIndexKeys_orders(1) [OF n])
next
  show "extractFactoryDeps K0 diamond diamondA = Inr [''0xbb'', ''0xdd'', ''0xcc'']"
    by (rule diamond_example)
qed

lemma diamond_noIndexKeys: "noIndexKeys diamond diamondA"
  by code_simp

theorem C1_preorder_enumeration_order_witness:
  "noIndexKeys diamond diamondA
   \<and> extractFactoryDeps K0 diamond diamondA = resolveFactoryDependencies K0 diamond diamondA
   \<and> resolveFactoryDependencies K0 diamond diamondA = Inr [''0xbb'', ''0xdd'', ''0xcc'']"
  using C1_preorder_enumeration_order [of K0 diamond diamondA] diamond_noIndexKeys
  by metis

text \<open>
  C1 as stated fails where keys are array indices: the root's object was given the
  entries \<open>2 \<mapsto> src:B\<close> and then \<open>1 \<mapsto> src:C\<close>; the loop enumerates key \<open>1\<close> first, so
  \<open>C\<close>'s bytecode comes before \<open>B\<close>'s, while insertion order gives \<open>B\<close> first.
\<close>

theorem C1_insertion_order_counterexample:
  "extractFactoryDeps K0 indexKeys indexKeysRoot = Inr [''0xcc'', ''0xbb'']
   \<and> resolveFactoryDependencies K0 indexKeys indexKeysRoot = Inr [''0xbb'', ''0xcc'']
   \<and> map snd (factoryDeps indexKeysRoot) = [''src:B'', ''src:C'']"
  by code_simp

text \<open>
  C2 (amended).  In a resolution that succeeds, the output is, entry by entry, the
  bytecodes of the artifacts loaded, and no dependency name (the value of a
  \<open>factoryDeps\<close> entry) is loaded twice: each name contributes its bytecode at most
  once.  Where every artifact is stored under its own identity and under no other name,
  the names loaded are the identities \<open>sourceName:contractName\<close> of the artifacts
  loaded, so that each distinct identity contributes its bytecode at most once.  In
  the diamond \<open>A \<rightarrow> B\<close>, \<open>A \<rightarrow> C\<close>, \<open>B \<rightarrow> D\<close>, \<open>C \<rightarrow> D\<close> the bytecode of \<open>D\<close> appears
  exactly once.
\<close>

theorem C2_no_duplicates:
  "(extractFactoryDeps K hre root = Inr out \<longrightarrow>
      out = map (bytecodeOf K hre) (loaded K hre root)
      \<and> distinct (loaded K hre root)
      \<and> (\<forall>c. count_list (loaded K hre root) c \<le> 1)
      \<and> (inj_on (bytecodeOf K hre) (set (loaded K hre root)) \<longrightarrow> distinct out)
      \<and> (wellKeyed hre \<longrightarrow>
            map (identityOf K hre) (loaded K hre root) = loaded K hre root
            \<and> distinct (map (identityOf K hre) (loaded K hre root))
            \<and> (\<forall>i. count_list (map (identityOf K hre) (loaded K hre root)) i \<le> 1)))
   \<and> extractFactoryDeps K0 diamond diamondA = Inr [''0xbb'', ''0xdd'', ''0xcc'']
   \<and> loaded K0 diamond diamondA = [''src:B'', ''src:D'', ''src:C'']
   \<and> count_list [''0xbb'', ''0xdd'', ''0xcc''] ''0xdd'' = 1"
proof (intro conjI impI allI)
  assume ok: "extractFactoryDeps K hre root = Inr out"
  show out: "out = map (bytecodeOf K hre) (loaded K hre root)"
    by (rule success_output(1) [OF ok])
  show "distinct (loaded K hre root)" by (rule loaded_distinct)
  show "count_list (loaded K hre root) c \<le> 1" for c by (simp add: loaded_count)
  show "distinct out" if "inj_on (bytecodeOf K hre) (set (loaded K hre root))"
    unfolding out using that by (simp add: distinct_map loaded_distinct)
  assume wk: "wellKeyed hre"
  show ids: "map (identityOf K hre) (loaded K hre root) = loaded K hre root"
    by (rule identityOf_wellKeyed [OF wk success_output(2) [OF ok]])
  show "distinct (map (identityOf K hre) (loaded K hre root))"
    unfolding ids by (rule loaded_distinct)
  show "count_list (map (identityOf K hre) (loaded K hre root)) i \<le> 1" for i
    unfolding ids by (simp add: loaded_count)
next
  show "extractFactoryDeps K0 diamond diamondA = Inr [''0xbb'', ''0xdd'', ''0xcc'']"
    by (rule diamond_example)
  show "loaded K0 diamond diamondA = [''src:B'', ''src:D'', ''src:C'']"
    by (rule ex_diamond_loaded)
  show "count_list [''0xbb'', ''0xdd'', ''0xcc''] ''0xdd'' = 1" by simp
qed

theorem C2_no_duplicates_witness:
  "extractFactoryDeps K0 diamond diamondA = Inr [''0xbb'', ''0xdd'', ''0xcc'']
   \<and> wellKeyed diamond
   \<and> [''0xbb'', ''0xdd'', ''0xcc''] = map (bytecodeOf K0 diamond) (loaded K0 diamond diamondA)
   \<and> distinct (loaded K0 diamond diamondA)
   \<and> map (identityOf K0 diamond) (loaded K0 diamond diamondA) = loaded K0 diamond diamondA
   \<and> distinct (map (identityOf K0 diamond) (loaded K0 diamond diamondA))"
  using C2_no_duplicates [of K0 diamond diamondA "[''0xbb'', ''0xdd'', ''0xcc'']"]
    diamond_example ex_diamond_wellKeyed
  by blast

text \<open>
  C2 as stated fails where the loader serves one artifact under two names: the root
  references \<open>B\<close> as \<open>src:B\<close> and as \<open>B\<close>; the visited set holds the names, so both are
  loaded, and the bytecode of the one identity \<open>src:B\<close> is emitted twice.
\<close>

theorem C2_alias_counterexample:
  "map snd (factoryDeps aliasRoot) = [''src:B'', ''B'']
   \<and> extractFactoryDeps K0 aliasEnv aliasRoot = Inr [''0xbb'', ''0xbb'']
   \<and> map (identityOf K0 aliasEnv) (loaded K0 aliasEnv aliasRoot) = [''src:B'', ''src:B'']
   \<and> count_list [''0xbb'', ''0xbb''] ''0xbb'' = 2"
  using ex_alias by (simp add: aliasRoot_def zk_def)










text \<open>
  C5 (amended).  The root's identity string \<open>sourceName:contractName\<close> is never passed
  to \<open>loadArtifact\<close>, because the visited set is seeded with it, and every entry of
  the output is the bytecode of an artifact loaded under another name.  Where every
  artifact is stored under its own identity and under no other name, no artifact with
  the root's identity is ever loaded, so that the root's own bytecode is not part of
  the output.  A root whose dependency entries all name its identity string yields the
  empty sequence without any load.
\<close>

theorem C5_root_excluded:
  "identity root \<notin> set (loaded K hre root)
   \<and> (extractFactoryDeps K hre root = Inr out \<longrightarrow>
        out = map (bytecodeOf K hre) (loaded K hre root))
   \<and> (wellKeyed hre \<longrightarrow>
        (\<forall>c \<in> set (loaded K hre root). \<forall>a. loadArtifact K hre c = Inr a
            \<longrightarrow> identity a \<noteq> identity root))
   \<and> (set (insertionOrder root) \<subseteq> {identity root} \<longrightarrow>
        extractFactoryDeps K hre root = Inr [] \<and> loaded K hre root = [])"
proof (intro conjI impI ballI allI)
  show nl: "identity root \<notin> set (loaded K hre root)" by (rule root_not_loaded)
  show "out = map (bytecodeOf K hre) (loaded K hre root)"
    if "extractFactoryDeps K hre root = Inr out" using that by (rule success_output(1))
  show "identity a \<noteq> identity root"
    if "wellKeyed hre" "c \<in> set (loaded K hre root)" "loadArtifact K hre c = Inr a" for c a
    using loadArtifact_wellKeyed [OF that(1) that(3)] that(2) nl by auto
next
  assume "set (insertionOrder root) \<subseteq> {identity root}"
  then have "\<forall>c \<in> snd ` set (forIn (factoryDeps root)). c \<in> visited (start root)"
    by (auto simp: set_forIn insertionOrder_def start_def)
  then have "forLoop K hre (forIn (factoryDeps root)) [] (start root) = (Inr [], start root)"
    by (rule forLoop_all_visited)
  then have run: "extractFactoryDeps_run K hre root = (Inr [], start root)"
    by (simp add: extractFactoryDeps_run_def start_def)
  from run show "extractFactoryDeps K hre root = Inr []" by (simp add: extractFactoryDeps_def)
  from run show "loaded K hre root = []" by (simp add: loaded_def start_def)
qed

lemma selfRef_facts:
  "set (insertionOrder selfRef) \<subseteq> {identity selfRef}" "wellKeyed selfRefEnv"
  by (simp_all add: insertionOrder_def identity_def selfRef_def zk_def wellKeyed_def
        selfRefEnv_def env_def)

theorem C5_root_excluded_witness:
  "set (insertionOrder selfRef) \<subseteq> {identity selfRef}
   \<and> extractFactoryDeps K0 selfRefEnv selfRef = Inr [] \<and> loaded K0 selfRefEnv selfRef = []
   \<and> wellKeyed selfRefEnv \<and> identity cycleA \<notin> set (loaded K0 cycle cycleA)"
  using C5_root_excluded [of selfRef K0 selfRefEnv "[]"]
    C5_root_excluded [of cycleA K0 cycle "[]"] selfRef_facts
  by blast

text \<open>
  C5 as stated fails where the loader serves the root under another name: the root
  \<open>src:A\<close> declares the dependency \<open>A\<close>, its bare contract name; \<open>A\<close> is not in the
  visited set \<open>{src:A}\<close>, so the root is loaded and its own bytecode is emitted.
\<close>

theorem C5_bare_name_counterexample:
  "identity bareNameRoot = ''src:A''
   \<and> map snd (factoryDeps bareNameRoot) = [''A'']
   \<and> loadArtifact K0 bareNameEnv ''A'' = Inr bareNameRoot
   \<and> loaded K0 bareNameEnv bareNameRoot = [''A'']
   \<and> extractFactoryDeps K0 bareNameEnv bareNameRoot = Inr [bytecode bareNameRoot]"
  using ex_bareName by (simp add: bareNameRoot_def zk_def)

text \<open>
  C6.  If the load of a transitively referenced identity (other than the root's own,
  which is never loaded) fails, the call fails, with the error of a transitively
  referenced identity whose load failed.  Whenever the call fails, its error is,
  unchanged, the error of the last load made: all loads before it succeeded, none is
  made after it, and the failing identity was asked for once.  The value is an error,
  not a sequence.  A load error names the identity asked for.
\<close>

theorem C6_error_propagation:
  "(reachable K hre root c \<and> c \<noteq> identity root \<and> loadArtifact K hre c = Inl e \<longrightarrow>
      (\<exists>c' e'. reachable K hre root c' \<and> loadArtifact K hre c' = Inl e'
               \<and> extractFactoryDeps K hre root = Inl e'))
   \<and> (extractFactoryDeps K hre root = Inl e \<longrightarrow>
        loaded K hre root \<noteq> []
        \<and> loadArtifact K hre (last (loaded K hre root)) = Inl e
        \<and> reachable K hre root (last (loaded K hre root))
        \<and> loads_ok K hre (butlast (loaded K hre root))
        \<and> count_list (loaded K hre root) (last (loaded K hre root)) = 1)
   \<and> (loadArtifact K hre c = Inl e \<longrightarrow>
        e = NotFound c \<or> e = ZkSync2JsPluginError (notCompiledMessage c))"
proof -
  have fail: "loaded K hre root \<noteq> []
        \<and> loadArtifact K hre (last (loaded K hre root)) = Inl e'
        \<and> reachable K hre root (last (loaded K hre root))
        \<and> loads_ok K hre (butlast (loaded K hre root))
        \<and> count_list (loaded K hre root) (last (loaded K hre root)) = 1"
    if f: "extractFactoryDeps K hre root = Inl e'" for e'
  proof -
    note ne = failure_last_load(1) [OF f]
    then have m: "last (loaded K hre root) \<in> set (loaded K hre root)" by simp
    from ne m failure_last_load(2,3) [OF f] loaded_reachable [OF m] show ?thesis
      by (simp add: loaded_count)
  qed
  have "\<exists>c' e'. reachable K hre root c' \<and> loadArtifact K hre c' = Inl e'
               \<and> extractFactoryDeps K hre root = Inl e'"
    if "reachable K hre root c \<and> c \<noteq> identity root \<and> loadArtifact K hre c = Inl e"
  proof -
    from that failing_dependency_fails [of K hre root c e]
    obtain e' where f: "extractFactoryDeps K hre root = Inl e'" by blast
    from fail [OF f] f show ?thesis by blast
  qed
  with fail [of e] loadArtifact_error [of K hre c e] show ?thesis by blast
qed

lemma missing_facts:
  "loadArtifact K0 missing ''src:M'' = Inl (NotFound ''src:M'')"
  "loadArtifact K0 missing ''src:B'' = Inr (zk ''B'' ''0xbb'' [(''h3'', ''src:M'')])"
  "''src:M'' \<noteq> identity missingRoot" "''src:B'' \<noteq> identity missingRoot"
  by (simp_all add: loadArtifact_def readArtifact_def missing_def env_def zk_def K0_def
        identity_def missingRoot_def)

lemma missing_reachable: "reachable K0 missing missingRoot ''src:M''"
proof -
  have "reachable K0 missing missingRoot ''src:B''"
    by (rule reachable.direct) (simp add: insertionOrder_def missingRoot_def zk_def)
  from reachable.step [OF this missing_facts(4) missing_facts(2), of "''src:M''"]
  show ?thesis by (simp add: insertionOrder_def zk_def)
qed

theorem C6_error_propagation_witness:
  "reachable K0 missing missingRoot ''src:M'' \<and> ''src:M'' \<noteq> identity missingRoot
   \<and> loadArtifact K0 missing ''src:M'' = Inl (NotFound ''src:M'')
   \<and> extractFactoryDeps K0 missing missingRoot = Inl (NotFound ''src:M'')
   \<and> loadArtifact K0 missing (last (loaded K0 missing missingRoot)) = Inl (NotFound ''src:M'')
   \<and> count_list (loaded K0 missing missingRoot) (last (loaded K0 missing missingRoot)) = 1"
  using C6_error_propagation [of K0 missing missingRoot "''src:M''" "NotFound ''src:M''"]
    missing_reachable missing_facts(1,3) ex_missing(1)
  by blast


text \<open>
  C7.  \<open>loadArtifact\<close> fails with the plugin's "was not compiled by zksolc or zkvyper"
  error, which names the requested contract, if and only if the artifact that was read
  has a format tag that is neither of the two format versions; a plugin error of
  \<open>loadArtifact\<close> is never another one; otherwise the artifact read is returned
  unchanged, and a failure to read is passed on.
\<close>

theorem C7_loadArtifact_format_check:
  "(loadArtifact K hre name = Inl (ZkSync2JsPluginError (notCompiledMessage name))
      \<longleftrightarrow> (\<exists>artifact. readArtifact hre name = Inr artifact \<and> unexpectedFormat K artifact))
   \<and> (\<forall>msg. loadArtifact K hre name = Inl (ZkSync2JsPluginError msg)
          \<longrightarrow> msg = notCompiledMessage name)
   \<and> (\<forall>artifact. readArtifact hre name = Inr artifact \<and> \<not> unexpectedFormat K artifact
          \<longrightarrow> loadArtifact K hre name = Inr artifact)
   \<and> (\<forall>e. readArtifact hre name = Inl e \<longrightarrow> loadArtifact K hre name = Inl e)"
  by (cases "readArtifact hre name")
     (auto simp: loadArtifact_def readArtifact_def notCompiledMessage_def unexpectedFormat_def
           split: option.splits)



lemma solcEnv_read:
  "readArtifact solcEnv ''src:S'' = Inr ((zk ''S'' ''0x01'' [])\<lparr>format_tag := ''hh-sol-artifact-1''\<rparr>)"
  "readArtifact solcEnv ''src:V'' = Inr ((zk ''V'' ''0x02'' [])\<lparr>format_tag := ''hh-zkvyper-artifact-1''\<rparr>)"
  by (simp_all add: readArtifact_def solcEnv_def env_def)

lemma solcEnv_formats:
  "unexpectedFormat K0 ((zk ''S'' ''0x01'' [])\<lparr>format_tag := ''hh-sol-artifact-1''\<rparr>)"
  "\<not> unexpectedFormat K0 ((zk ''V'' ''0x02'' [])\<lparr>format_tag := ''hh-zkvyper-artifact-1''\<rparr>)"
  by (simp_all add: unexpectedFormat_def K0_def zk_def)


theorem C7_loadArtifact_format_check_witness:
  "loadArtifact K0 solcEnv ''src:S''
     = Inl (ZkSync2JsPluginError ''Artifact src:S was not compiled by zksolc or zkvyper'')
   \<and> loadArtifact K0 solcEnv ''src:V''
     = Inr ((zk ''V'' ''0x02'' [])\<lparr>format_tag := ''hh-zkvyper-artifact-1''\<rparr>)"
proof -
  have m: "notCompiledMessage ''src:S'' = ''Artifact src:S was not compiled by zksolc or zkvyper''"
    by (simp add: notCompiledMessage_def)
  from C7_loadArtifact_format_check [of K0 solcEnv "''src:S''", THEN conjunct1]
    solcEnv_read(1) solcEnv_formats(1)
  have "loadArtifact K0 solcEnv ''src:S''
          = Inl (ZkSync2JsPluginError (notCompiledMessage ''src:S''))"
    by blast
  moreover
  from C7_loadArtifact_format_check [of K0 solcEnv "''src:V''", THEN conjunct2, THEN conjunct2,
      THEN conjunct1] solcEnv_read(2) solcEnv_formats(2)
  have "loadArtifact K0 solcEnv ''src:V''
          = Inr ((zk ''V'' ''0x02'' [])\<lparr>format_tag := ''hh-zkvyper-artifact-1''\<rparr>)"
    by blast
  ultimately show ?thesis by (simp only: m simp_thms)
qed

text \<open>
  C8.  The resolver does not look at bytecodes: whatever bytecode the stored artifacts
  carry, the same identities are loaded in the same order, the call fails with the
  same error or succeeds alike, and on success the output lists the bytecode of each
  loaded identity.  A dependency with bytecode \<open>0x\<close> is traversed and emitted like
  any other.
\<close>

theorem C8_bytecode_not_inspected:
  "loaded K (withBytecodes g hre) root = loaded K hre root
   \<and> extractFactoryDeps K (withBytecodes g hre) root
       = (case extractFactoryDeps K hre root of
            Inl e \<Rightarrow> Inl e
          | Inr out \<Rightarrow> Inr (map g (loaded K hre root)))
   \<and> (extractFactoryDeps K hre root = Inr out \<longrightarrow>
        out = map (bytecodeOf K hre) (loaded K hre root))
   \<and> extractFactoryDeps K0 abstractDep abstractDepRoot = Inr [''0x'', ''0xbb'']
   \<and> loaded K0 abstractDep abstractDepRoot = [''src:I'', ''src:B'']"
  using loaded_withBytecodes [of K g hre root] extractFactoryDeps_withBytecodes [of K g hre root]
    success_output(1) [of K hre root out] ex_abstractDep
  by blast

theorem C8_bytecode_not_inspected_witness:
  "extractFactoryDeps K0 diamond diamondA = Inr [''0xbb'', ''0xdd'', ''0xcc'']
   \<and> extractFactoryDeps K0 (withBytecodes (\<lambda>name. ''0x'') diamond) diamondA
        = Inr [''0x'', ''0x'', ''0x'']
   \<and> loaded K0 (withBytecodes (\<lambda>name. ''0x'') diamond) diamondA
        = [''src:B'', ''src:D'', ''src:C'']"
proof -
  note inst = C8_bytecode_not_inspected [of K0 "\<lambda>name. ''0x''" diamond diamondA
      "[''0xbb'', ''0xdd'', ''0xcc'']"]
  from inst have "loaded K0 (withBytecodes (\<lambda>name. ''0x'') diamond) diamondA
        = [''src:B'', ''src:D'', ''src:C'']"
    by (simp only: ex_diamond_loaded)
  moreover from inst have "extractFactoryDeps K0 (withBytecodes (\<lambda>name. ''0x'') diamond) diamondA
        = Inr (map (\<lambda>name. ''0x'') [''src:B'', ''src:D'', ''src:C''])"
    by (simp only: diamond_example ex_diamond_loaded sum.case)
  ultimately show ?thesis using diamond_example by simp
qed


text \<open>
  C9.  For a root whose \<open>factoryDeps\<close> is empty, \<open>extractFactoryDeps\<close> returns the
  empty sequence and loads no artifact.
\<close>

theorem C9_empty_factoryDeps:
  "factoryDeps artifact = [] \<Longrightarrow>
     extractFactoryDeps K hre artifact = Inr [] \<and> loaded K hre artifact = []"
  by (simp add: extractFactoryDeps_def loaded_def extractFactoryDeps_run_def forIn_def)

theorem C9_empty_factoryDeps_witness:
  "factoryDeps (zk ''D'' ''0xdd'' []) = []
   \<and> extractFactoryDeps K0 diamond (zk ''D'' ''0xdd'' []) = Inr []
   \<and> loaded K0 diamond (zk ''D'' ''0xdd'' []) = []"
proof -
  have h: "factoryDeps (zk ''D'' ''0xdd'' []) = []" by (simp add: zk_def)
  from h C9_empty_factoryDeps [OF h, of K0 diamond] show ?thesis by simp
qed


lemma abstractContractMessage_shape:
  "\<exists>before between rest.
      abstractContractMessage name = before @ name @ between @ ''getContractAt'' @ rest"
proof -
  have "abstractContractMessage name
      = ''You are trying to create a contract factory for the contract '' @ name
        @ ('', which is abstract and can'' @ [CHR 0x27] @ ''t be deployed.'' @ [CHR 0x0A]
           @ ''If you want to call a contract using '' @ name
           @ '' as its interface use the '' @ [CHR 0x22])
        @ ''getContractAt'' @ ([CHR 0x22] @ '' function instead.'')"
    by (simp only: abstractContractMessage_def append_assoc)
  then show ?thesis by blast
qed

text \<open>
  C10.  For an artifact that passes \<open>isArtifact\<close> and whose bytecode is \<open>0x\<close>,
  \<open>getContractFactoryFromArtifact\<close> throws a \<open>ZkSync2JsPluginError\<close> before any
  default wallet is resolved and before any factory is constructed (the log of these
  effects is empty); the message names the contract and points to \<open>getContractAt\<close>.
\<close>

theorem C10_abstract_contract_rejected:
  "isArtifact artifact \<Longrightarrow> bytecode artifact = ''0x'' \<Longrightarrow>
     getContractFactoryFromArtifact isArtifact hre artifact walletOrOptions deploymentType
       = (Inl (ZkSync2JsPluginError (abstractContractMessage (contractName artifact))), [])
     \<and> (\<exists>before between rest.
          abstractContractMessage (contractName artifact)
            = before @ contractName artifact @ between @ ''getContractAt'' @ rest)"
proof (intro conjI)
  assume "isArtifact artifact" "bytecode artifact = ''0x''"
  then show "getContractFactoryFromArtifact isArtifact hre artifact walletOrOptions deploymentType
       = (Inl (ZkSync2JsPluginError (abstractContractMessage (contractName artifact))), [])"
    by (simp add: getContractFactoryFromArtifact_def Let_def)
next
  show "\<exists>before between rest.
          abstractContractMessage (contractName artifact)
            = before @ contractName artifact @ between @ ''getContractAt'' @ rest"
    by (rule abstractContractMessage_shape)
qed


theorem C10_abstract_contract_rejected_witness:
  "bytecode abstractArtifact = ''0x''
   \<and> getContractFactoryFromArtifact (\<lambda>a. True) diamond abstractArtifact None None
       = (Inl (ZkSync2JsPluginError (abstractContractMessage ''IGreeter'')), [])"
proof -
  have b: "bytecode abstractArtifact = ''0x''" and n: "contractName abstractArtifact = ''IGreeter''"
    by (simp_all add: abstractArtifact_def zk_def)
  from C10_abstract_contract_rejected [of "\<lambda>a. True" abstractArtifact diamond None None,
      OF TrueI b, THEN conjunct1]
  have "getContractFactoryFromArtifact (\<lambda>a. True) diamond abstractArtifact None None
       = (Inl (ZkSync2JsPluginError (abstractContractMessage ''IGreeter'')), [])"
    by (simp only: n)
  with b show ?thesis by (simp only: simp_thms)
qed

end
